theory Spec2Isabelle
  imports Main "HOL-Library.AList"
begin

section \<open>Resilience layer of the event backend (services/index.js)\<close>

text \<open>
  The module guards the route POST /addEvent with a retry loop (\<open>retryWithBackoff\<close>)
  and a hand-written circuit breaker made of three module-level variables
  (\<open>failureTimestamps\<close>, \<open>circuitOpen\<close>, \<open>nextProbe\<close>) and timers of
  the runtime. Timestamps are the integer milliseconds of \<open>Date.now()\<close>. Calls of the
  logger touch none of these variables and are left out, except that reading
  \<open>data.id\<close> for the log line of a successful request can throw, which is kept.
\<close>

subsection \<open>Constants\<close>

definition FAILURE_WINDOW :: int where
  "FAILURE_WINDOW = 30 * 1000"

definition FAILURE_THRESHOLD :: nat where
  "FAILURE_THRESHOLD = 3"

definition BACKOFF_TIME :: int where
  "BACKOFF_TIME = 30 * 1000"

definition MAX_RETRIES :: int where
  "MAX_RETRIES = 3"

definition INITIAL_RETRY_DELAY :: int where
  "INITIAL_RETRY_DELAY = 1000"

subsection \<open>The failure window\<close>

text \<open>
  The loop written twice in the handler,
  \<^verbatim>\<open>while (failureTimestamps.length && now - failureTimestamps[0] > FAILURE_WINDOW)
    failureTimestamps.shift();\<close>
  as a recursion on the array.
\<close>

fun prune :: "int \<Rightarrow> int list \<Rightarrow> int list" where
  "prune now [] = []"
| "prune now (t # ts) = (if now - t > FAILURE_WINDOW then prune now ts else t # ts)"

subsection \<open>JSON values, requests and the downstream service\<close>

datatype jsval = JNull | JBool bool | JNum int | JStr string | JObj "(string \<times> jsval) list"

text \<open>An object literal keeps its properties in insertion order.\<close>

type_synonym jsobj = "(string \<times> jsval) list"

record request =
  http_method :: string
  url :: string
  headers :: "(string \<times> string) list"
  body :: jsobj

text \<open>
  A response of \<open>fetch\<close>: \<open>resp.ok\<close> is true for a status in 200..299;
  \<open>resp.json()\<close> rejects when the body is not JSON (\<open>json = None\<close>).
\<close>

record response =
  status :: int
  json :: "jsval option"

definition ok :: "response \<Rightarrow> bool" where
  "ok resp = (200 \<le> status resp \<and> status resp \<le> 299)"

text \<open>\<open>fetch\<close> either rejects (no connection) or resolves with a response.\<close>

datatype fetch_result = NetworkError | Resolved response

text \<open>
  What the handler can see of the outside: the clock read by \<open>Date.now()\<close>, the state
  of the service behind http://event.com, and (as a ghost field) the requests sent to it
  so far. The service is a parameter: it answers a request from its state with a result,
  the milliseconds it took, and its next state.
\<close>

record 'd world =
  clock :: int
  dstate :: 'd
  fetched :: "request list"

type_synonym 'd server = "request \<Rightarrow> 'd \<Rightarrow> fetch_result \<times> nat \<times> 'd"

definition fetch :: "'d server \<Rightarrow> request \<Rightarrow> 'd world \<Rightarrow> fetch_result \<times> 'd world" where
  "fetch srv req w =
     (case srv req (dstate w) of
        (res, ms, d') \<Rightarrow>
          (res, w\<lparr>clock := clock w + int ms, dstate := d', fetched := fetched w @ [req]\<rparr>))"

text \<open>
  \<open>await new Promise(resolve => setTimeout(resolve, delay))\<close>: the clock moves on by the
  delay. The runtime sets a delay below 1 or above 2147483647 to 1.
\<close>

definition sleep :: "int \<Rightarrow> 'd world \<Rightarrow> 'd world" where
  "sleep ms w = w\<lparr>clock := clock w + (if ms < 1 \<or> ms > 2147483647 then 1 else ms)\<rparr>"

subsection \<open>retryWithBackoff\<close>

text \<open>
  What an operation throws: \<open>undefined\<close>, \<open>null\<close>, or any other value (an Error
  object, for the handler). The \<open>catch\<close> block of the loop reads \<open>error.message\<close>
  for its log line, on the last attempt before \<open>throw error\<close> and on the others
  before the wait; on \<open>undefined\<close> and \<open>null\<close> that read throws a TypeError, which
  leaves the function at once.
\<close>

datatype 'e thrown = ThrownUndefined | ThrownNull | Thrown 'e

fun nullish :: "'e thrown \<Rightarrow> bool" where
  "nullish ThrownUndefined = True"
| "nullish ThrownNull = True"
| "nullish (Thrown e) = False"

text \<open>What \<open>retryWithBackoff\<close> throws: a value it caught, or that TypeError.\<close>

datatype 'e raised = Raised "'e thrown" | MessageTypeError

text \<open>
  The loop \<open>for (attempt = 0; attempt <= maxRetries; attempt++)\<close>, entered at
  \<open>attempt\<close> with the current \<open>lastError\<close> (at first \<open>undefined\<close>).
  An operation \<open>fn\<close> returns \<open>Inl error\<close> when it throws. The result is what the
  function returns (\<open>Inr\<close>) or throws (\<open>Inl\<close>), together with a ghost log of what the
  loop did: each invocation of \<open>fn\<close> and each delay it waited.
\<close>

datatype retry_step = Invoke int | Delay int

function retry_loop ::
  "int \<Rightarrow> 'e thrown \<Rightarrow> ('d world \<Rightarrow> ('e thrown + 'a) \<times> 'd world) \<Rightarrow> int \<Rightarrow> int \<Rightarrow> 'd world
     \<Rightarrow> ('e raised + 'a) \<times> retry_step list \<times> 'd world" where
  "retry_loop attempt lastError fn maxRetries baseDelay w =
     (if attempt \<le> maxRetries then
        (case fn w of
           (Inr result, w1) \<Rightarrow> (Inr result, [Invoke attempt], w1)
         | (Inl error, w1) \<Rightarrow>
             if attempt = maxRetries then
               (if nullish error then (Inl MessageTypeError, [Invoke attempt], w1)
                else (Inl (Raised error), [Invoke attempt], w1))
             else if nullish error then (Inl MessageTypeError, [Invoke attempt], w1)
             else
               (case retry_loop (attempt + 1) error fn maxRetries baseDelay
                       (sleep (baseDelay * 2 ^ nat attempt) w1) of
                  (r, log, w2) \<Rightarrow>
                    (r, Invoke attempt # Delay (baseDelay * 2 ^ nat attempt) # log, w2)))
      else (Inl (Raised lastError), [], w))"
  by pat_completeness auto
termination
  by (relation "measure (\<lambda>(attempt, lastError, fn, maxRetries, baseDelay, w).
        nat (maxRetries + 1 - attempt))") auto

declare retry_loop.simps [simp del]

definition retryWithBackoff ::
  "('d world \<Rightarrow> ('e thrown + 'a) \<times> 'd world) \<Rightarrow> int \<Rightarrow> int \<Rightarrow> 'd world
     \<Rightarrow> ('e raised + 'a) \<times> retry_step list \<times> 'd world" where
  "retryWithBackoff fn maxRetries baseDelay w =
     retry_loop 0 ThrownUndefined fn maxRetries baseDelay w"

subsection \<open>The circuit breaker state and the timers\<close>

text \<open>
  The two timer callbacks of the module: the arrow function armed when the circuit
  opens, and the named function \<open>retry\<close> it arms when its probe fails.
\<close>

datatype callback = FirstProbe | Retry

record timer =
  handle :: nat
  callback :: callback
  delay :: int

text \<open>
  The three module variables, and what the runtime holds for them: the pending timers
  (\<open>setTimeout\<close> returns a fresh handle), the timer callbacks suspended at
  \<open>await probeExternalService()\<close>, and the number of handlers suspended at
  \<open>await retryWithBackoff(...)\<close>.
\<close>

record sys =
  failureTimestamps :: "int list"
  circuitOpen :: bool
  nextProbe :: "nat option"
  timers :: "timer list"
  next_handle :: nat
  probing :: "callback list"
  inflight :: nat

definition init :: sys where
  "init = \<lparr>failureTimestamps = [], circuitOpen = False, nextProbe = None,
           timers = [], next_handle = 0, probing = [], inflight = 0\<rparr>"

definition setTimeout :: "callback \<Rightarrow> int \<Rightarrow> sys \<Rightarrow> nat \<times> sys" where
  "setTimeout cb ms s =
     (next_handle s,
      s\<lparr>timers := timers s @ [\<lparr>handle = next_handle s, callback = cb, delay = ms\<rparr>],
        next_handle := next_handle s + 1\<rparr>)"

subsection \<open>probeExternalService and the timer callbacks\<close>

definition addEvent_url :: string where
  "addEvent_url = ''http://event.com/addEvent''"

definition probe_request :: request where
  "probe_request =
     \<lparr>http_method = ''POST'', url = addEvent_url,
      headers = [(''Content-Type'', ''application/json'')],
      body = [(''name'', JStr ''__probe__''), (''userId'', JStr ''probe'')]\<rparr>"

fun probe_ok :: "fetch_result \<Rightarrow> bool" where
  "probe_ok NetworkError = False"
| "probe_ok (Resolved resp) = ok resp"

text \<open>The part of \<open>probeExternalService\<close> after \<open>await fetch(...)\<close>, given its outcome.\<close>

definition probe_resume :: "fetch_result \<Rightarrow> sys \<Rightarrow> bool \<times> sys" where
  "probe_resume res s =
     (case res of
        Resolved resp \<Rightarrow>
          if ok resp then
            (True, s\<lparr>circuitOpen := False, failureTimestamps := [], nextProbe := None\<rparr>)
          else (False, s)
      | NetworkError \<Rightarrow> (False, s))"

definition probeExternalService :: "'d server \<Rightarrow> sys \<Rightarrow> 'd world \<Rightarrow> bool \<times> sys \<times> 'd world" where
  "probeExternalService srv s w =
     (case fetch srv probe_request w of
        (res, w') \<Rightarrow> (case probe_resume res s of (recovered, s') \<Rightarrow> (recovered, s', w')))"

text \<open>The part of a timer callback after \<open>await probeExternalService()\<close>.\<close>

fun callback_resume :: "callback \<Rightarrow> bool \<Rightarrow> sys \<Rightarrow> sys" where
  "callback_resume FirstProbe recovered s =
     (if \<not> recovered then
        (case setTimeout Retry BACKOFF_TIME s of (h, s') \<Rightarrow> s'\<lparr>nextProbe := Some h\<rparr>)
      else s)"
| "callback_resume Retry ok' s =
     (if \<not> ok' then
        (case setTimeout Retry BACKOFF_TIME s of (h, s') \<Rightarrow> s'\<lparr>nextProbe := Some h\<rparr>)
      else s)"

text \<open>A timer callback run from start to end, with nothing else in between.\<close>

definition run_callback :: "'d server \<Rightarrow> callback \<Rightarrow> sys \<Rightarrow> 'd world \<Rightarrow> sys \<times> 'd world" where
  "run_callback srv cb s w =
     (case probeExternalService srv s w of
        (recovered, s', w') \<Rightarrow> (callback_resume cb recovered s', w'))"

subsection \<open>The handler of POST /addEvent\<close>

text \<open>
  \<open>{ id: new Date().getTime(), ...request.body }\<close>: the properties of the source are set
  on the target in order; a property already there keeps its place and takes the new value.
  The request body is taken to be an object, as the route expects
  (\<open>{name, userId}\<close>), with keys that are not array indices.
\<close>

definition spread :: "jsobj \<Rightarrow> jsobj \<Rightarrow> jsobj" where
  "spread target source = fold (\<lambda>(k, v). AList.update k v) source target"

definition addEvent_request :: "int \<Rightarrow> jsobj \<Rightarrow> request" where
  "addEvent_request now payload =
     \<lparr>http_method = ''POST'', url = addEvent_url,
      headers = [(''Content-Type'', ''application/json'')],
      body = spread [(''id'', JNum now)] payload\<rparr>"

datatype js_error = FetchFailed | ExternalServiceError int | JsonSyntaxError

text \<open>
  The arrow function handed to \<open>retryWithBackoff\<close>: one attempt. What it throws is
  always an Error object: the TypeError of \<open>fetch\<close>, its own \<open>Error\<close>, or the
  SyntaxError of \<open>resp.json()\<close>.
\<close>

definition addEvent_attempt ::
  "'d server \<Rightarrow> jsobj \<Rightarrow> 'd world \<Rightarrow> (js_error thrown + jsval) \<times> 'd world" where
  "addEvent_attempt srv payload w =
     (case fetch srv (addEvent_request (clock w) payload) w of
        (NetworkError, w') \<Rightarrow> (Inl (Thrown FetchFailed), w')
      | (Resolved resp, w') \<Rightarrow>
          if \<not> ok resp then (Inl (Thrown (ExternalServiceError (status resp))), w')
          else (case json resp of
                  None \<Rightarrow> (Inl (Thrown JsonSyntaxError), w')
                | Some data \<Rightarrow> (Inr data, w')))"

text \<open>STEP 3 and STEP 4/5 of the handler, at \<open>now = Date.now()\<close>.\<close>

definition success_branch :: "int \<Rightarrow> sys \<Rightarrow> sys" where
  "success_branch now s = s\<lparr>failureTimestamps := prune now (failureTimestamps s)\<rparr>"

definition failure_branch :: "int \<Rightarrow> sys \<Rightarrow> sys" where
  "failure_branch now s =
     (let s1 = s\<lparr>failureTimestamps := failureTimestamps s @ [now]\<rparr>;
          s2 = s1\<lparr>failureTimestamps := prune now (failureTimestamps s1)\<rparr>
      in if length (failureTimestamps s2) \<ge> FAILURE_THRESHOLD \<and> \<not> circuitOpen s2 then
           (let s3 = s2\<lparr>circuitOpen := True\<rparr>
            in if nextProbe s3 = None then
                 (case setTimeout FirstProbe BACKOFF_TIME s3 of
                    (h, s4) \<Rightarrow> s4\<lparr>nextProbe := Some h\<rparr>)
               else s3)
         else s2)"

record reply =
  code :: int
  payload :: jsval

definition circuit_open_reply :: reply where
  "circuit_open_reply =
     \<lparr>code = 503,
      payload = JObj [(''error'', JStr ''Circuit breaker open''),
        (''message'', JStr ''External service temporarily unavailable. Please try again later.'')]\<rparr>"

definition could_not_add_reply :: reply where
  "could_not_add_reply =
     \<lparr>code = 503,
      payload = JObj [(''error'', JStr ''Could not add event''),
        (''message'', JStr ''External service unavailable after retries'')]\<rparr>"

text \<open>
  The success path of the handler (lines 142 to 149) at \<open>now = Date.now()\<close>: STEP 3,
  then the log line that reads \<open>data.id\<close>, then \<open>reply.send(data)\<close>. When the
  service answered \<open>null\<close> the read of \<open>data.id\<close> throws a TypeError, after STEP 3
  and before any reply.
\<close>

datatype handler_error = DataIdTypeError

definition success_path :: "jsval \<Rightarrow> int \<Rightarrow> sys \<Rightarrow> (handler_error + reply) \<times> sys" where
  "success_path data now s =
     (let s1 = success_branch now s
      in if data = JNull then (Inl DataIdTypeError, s1)
         else (Inr \<lparr>code = 200, payload = data\<rparr>, s1))"

text \<open>
  One request handled from start to end, with nothing else in between. The success path
  is inside the \<open>try\<close> block, so what it throws lands in the \<open>catch\<close> block, as
  what the retried call throws does. (The \<open>catch\<close> block reads \<open>err.message\<close> too;
  what it catches here is always an Error object, see \<open>addEvent_throws_objects\<close>.)
\<close>

definition addEvent :: "'d server \<Rightarrow> jsobj \<Rightarrow> sys \<Rightarrow> 'd world \<Rightarrow> reply \<times> sys \<times> 'd world" where
  "addEvent srv request_body s w =
     (if circuitOpen s then (circuit_open_reply, s, w)
      else
        (case retryWithBackoff (addEvent_attempt srv request_body) MAX_RETRIES INITIAL_RETRY_DELAY w of
           (Inr data, log, w') \<Rightarrow>
             (case success_path data (clock w') s of
                (Inr sent, s1) \<Rightarrow> (sent, s1, w')
              | (Inl err, s1) \<Rightarrow> (could_not_add_reply, failure_branch (clock w') s1, w'))
         | (Inl err, log, w') \<Rightarrow> (could_not_add_reply, failure_branch (clock w') s, w')))"

subsection \<open>Interleavings\<close>

text \<open>
  Handlers and timer callbacks run to their next \<open>await\<close> without interruption, so an
  execution of the module is a sequence of such uninterrupted pieces:
  a request reaches the handler (\<open>Arrive\<close>); the retried call of a suspended handler
  returns (\<open>Succeed\<close>) or throws (\<open>Fail\<close>) at the given time; a pending timer fires and
  its callback sends the probe (\<open>Fire\<close>); the probe of a suspended callback comes back
  (\<open>ProbeDone\<close>). A step that cannot happen in the state is \<open>None\<close>. A retried
  call that returned \<open>null\<close> ends in the \<open>catch\<close> block and counts as \<open>Fail\<close>
  (lemma \<open>failure_after_success\<close> below). Nothing is assumed about when a timer fires
  or how long a call takes, so every real schedule is among these sequences.
\<close>

datatype event = Arrive | Succeed int | Fail int | Fire nat | ProbeDone nat fetch_result

fun step :: "event \<Rightarrow> sys \<Rightarrow> sys option" where
  "step Arrive s = Some (if circuitOpen s then s else s\<lparr>inflight := inflight s + 1\<rparr>)"
| "step (Succeed now) s =
     (if inflight s = 0 then None
      else Some ((success_branch now s)\<lparr>inflight := inflight s - 1\<rparr>))"
| "step (Fail now) s =
     (if inflight s = 0 then None
      else Some ((failure_branch now s)\<lparr>inflight := inflight s - 1\<rparr>))"
| "step (Fire h) s =
     (case find (\<lambda>t. handle t = h) (timers s) of
        None \<Rightarrow> None
      | Some t \<Rightarrow> Some (s\<lparr>timers := remove1 t (timers s), probing := probing s @ [callback t]\<rparr>))"
| "step (ProbeDone i res) s =
     (if i < length (probing s) then
        (case probe_resume res s of
           (recovered, s1) \<Rightarrow>
             Some ((callback_resume (probing s ! i) recovered s1)
                     \<lparr>probing := take i (probing s) @ drop (Suc i) (probing s)\<rparr>))
      else None)"

fun run :: "event list \<Rightarrow> sys \<Rightarrow> sys option" where
  "run [] s = Some s"
| "run (e # es) s = (case step e s of None \<Rightarrow> None | Some s' \<Rightarrow> run es s')"





text \<open>
  What holds of probes in every reachable state: a timer is pending or a probe is in
  flight, never both and never two; neither while the circuit is closed; the pending
  timer is the one \<open>nextProbe\<close> refers to, set for \<open>BACKOFF_TIME\<close>.
\<close>

definition probe_inv :: "sys \<Rightarrow> bool" where
  "probe_inv s =
     (length (timers s) + length (probing s) \<le> 1
      \<and> (\<not> circuitOpen s \<longrightarrow> timers s = [] \<and> probing s = [] \<and> nextProbe s = None)
      \<and> (\<forall>t \<in> set (timers s).
            nextProbe s = Some (handle t) \<and> delay t = BACKOFF_TIME \<and> handle t < next_handle s))"

subsection \<open>Properties of the failure window\<close>

lemma prune_dropWhile: "prune now ts = dropWhile (\<lambda>e. now - e > FAILURE_WINDOW) ts"
  by (induction ts) auto

lemma prune_sorted_filter:
  "sorted ts \<Longrightarrow> prune now ts = filter (\<lambda>e. now - e \<le> FAILURE_WINDOW) ts"
proof (induction ts)
  case Nil
  show ?case by simp
next
  case (Cons t ts)
  show ?case
  proof (cases "now - t > FAILURE_WINDOW")
    case True
    with Cons show ?thesis by simp
  next
    case False
    from Cons.prems have "\<forall>e \<in> set ts. t \<le> e" by simp
    with False have "\<forall>e \<in> set ts. now - e \<le> FAILURE_WINDOW" by auto
    then have "filter (\<lambda>e. now - e \<le> FAILURE_WINDOW) ts = ts" by (simp add: filter_id_conv)
    with False show ?thesis by simp
  qed
qed

lemma prune_suffix: "\<exists>stale. ts = stale @ prune now ts \<and> (\<forall>e \<in> set stale. now - e > FAILURE_WINDOW)"
proof (induction ts)
  case Nil
  show ?case by simp
next
  case (Cons t ts)
  show ?case
  proof (cases "now - t > FAILURE_WINDOW")
    case True
    from Cons obtain stale where "ts = stale @ prune now ts"
      and "\<forall>e \<in> set stale. now - e > FAILURE_WINDOW" by blast
    with True have "t # ts = (t # stale) @ prune now (t # ts) \<and>
      (\<forall>e \<in> set (t # stale). now - e > FAILURE_WINDOW)" by simp
    then show ?thesis by blast
  next
    case False
    then have "t # ts = [] @ prune now (t # ts) \<and> (\<forall>e \<in> set ([]::int list). now - e > FAILURE_WINDOW)"
      by simp
    then show ?thesis by blast
  qed
qed

text \<open>
  C8. On a chronologically ordered window, pruning at time \<open>now\<close> removes exactly the
  stale entries: what remains is the window filtered by \<open>now - e \<le> FAILURE_WINDOW\<close>
  (so every non-stale entry is kept, in the original order), every remaining entry is
  within the window of \<open>now\<close>, and what was removed is a prefix of stale entries.
\<close>

theorem prune_exactly_stale:
  assumes "sorted ts"
  shows "prune now ts = filter (\<lambda>e. now - e \<le> FAILURE_WINDOW) ts
       \<and> (\<forall>e \<in> set (prune now ts). now - e \<le> FAILURE_WINDOW)
       \<and> (\<exists>stale. ts = stale @ prune now ts \<and> (\<forall>e \<in> set stale. now - e > FAILURE_WINDOW))"
proof (intro conjI)
  show eq: "prune now ts = filter (\<lambda>e. now - e \<le> FAILURE_WINDOW) ts"
    using assms by (rule prune_sorted_filter)
  show "\<forall>e \<in> set (prune now ts). now - e \<le> FAILURE_WINDOW"
    unfolding eq by simp
  show "\<exists>stale. ts = stale @ prune now ts \<and> (\<forall>e \<in> set stale. now - e > FAILURE_WINDOW)"
    by (rule prune_suffix)
qed

theorem prune_exactly_stale_witness:
  "sorted [0, 1000, 25000, 31000 :: int]
   \<and> prune 31000 [0, 1000, 25000, 31000] = [1000, 25000, 31000]
   \<and> prune 31000 [0, 1000, 25000, 31000]
       = filter (\<lambda>e. 31000 - e \<le> FAILURE_WINDOW) [0, 1000, 25000, 31000]"
  using prune_exactly_stale [of "[0, 1000, 25000, 31000]" 31000]
  by (simp add: FAILURE_WINDOW_def)

subsection \<open>Properties of retryWithBackoff\<close>








text \<open>
  When no invocation throws \<open>undefined\<close> or \<open>null\<close>, and there is at least one
  attempt, what \<open>retryWithBackoff\<close> throws is a value the operation threw. So it is for
  the handler, whose \<open>catch\<close> block can then read \<open>err.message\<close>.
\<close>

lemma retry_loop_raises:
  assumes "\<And>v e v'. fn v = (Inl e, v') \<Longrightarrow> \<not> nullish e"
    and "attempt \<le> maxRetries"
    and "retry_loop attempt lastError fn maxRetries baseDelay w = (Inl r, log, w')"
  shows "\<exists>e. r = Raised (Thrown e)"
  using assms
proof (induction attempt lastError fn maxRetries baseDelay w arbitrary: log w'
    rule: retry_loop.induct)
  case (1 attempt lastError fn maxRetries baseDelay w)
  note le = "1.prems"(2)
  obtain x w1 where fw: "fn w = (x, w1)" by (cases "fn w")
  show ?case
  proof (cases x)
    case (Inr result)
    with le fw "1.prems"(3) show ?thesis
      by (subst (asm) retry_loop.simps) simp
  next
    case (Inl error)
    with fw "1.prems"(1) have nn: "\<not> nullish error" by blast
    then obtain e where e: "error = Thrown e" by (cases error) simp_all
    show ?thesis
    proof (cases "attempt = maxRetries")
      case True
      with Inl le fw nn "1.prems"(3) have "r = Raised error"
        by (subst (asm) retry_loop.simps) simp
      with e show ?thesis by blast
    next
      case False
      obtain r2 log2 w2 where rec: "retry_loop (attempt + 1) error fn maxRetries baseDelay
          (sleep (baseDelay * 2 ^ nat attempt) w1) = (r2, log2, w2)"
        by (cases "retry_loop (attempt + 1) error fn maxRetries baseDelay
          (sleep (baseDelay * 2 ^ nat attempt) w1)") auto
      with Inl le fw nn False "1.prems"(3) have "r2 = Inl r"
        by (subst (asm) retry_loop.simps) simp
      with rec have rec': "retry_loop (attempt + 1) error fn maxRetries baseDelay
          (sleep (baseDelay * 2 ^ nat attempt) w1) = (Inl r, log2, w2)" by simp
      from le False have "attempt + 1 \<le> maxRetries" by simp
      from "1.IH" [OF le fw [symmetric] Inl False nn "1.prems"(1) this rec']
      show ?thesis .
    qed
  qed
qed

lemma addEvent_attempt_throws_objects:
  "addEvent_attempt srv request_body v = (Inl e, v') \<Longrightarrow> \<not> nullish e"
  by (auto simp: addEvent_attempt_def split: prod.splits fetch_result.splits if_splits
      option.splits)

lemma addEvent_throws_objects:
  assumes "retryWithBackoff (addEvent_attempt srv request_body) MAX_RETRIES INITIAL_RETRY_DELAY w
             = (Inl r, log, w')"
  shows "\<exists>e. r = Raised (Thrown e)"
proof (rule retry_loop_raises)
  show "\<And>v e v'. addEvent_attempt srv request_body v = (Inl e, v') \<Longrightarrow> \<not> nullish e"
    by (rule addEvent_attempt_throws_objects)
  show "0 \<le> MAX_RETRIES" by (simp add: MAX_RETRIES_def)
  show "retry_loop 0 ThrownUndefined (addEvent_attempt srv request_body) MAX_RETRIES
      INITIAL_RETRY_DELAY w = (Inl r, log, w')"
    using assms by (simp add: retryWithBackoff_def)
qed

subsection \<open>The open-circuit test of the handler\<close>

text \<open>
  C6. A request handled while the circuit is open is answered at once with the 503
  "Circuit breaker open" reply: the world is unchanged (no retry, no delay, no request
  sent downstream) and so is the whole breaker state (window not touched, nothing recorded,
  circuit flag and probe handle as before).
\<close>

theorem open_circuit_rejects:
  assumes "circuitOpen s"
  shows "addEvent srv request_body s w = (circuit_open_reply, s, w)
       \<and> step Arrive s = Some s
       \<and> code circuit_open_reply = 503
       \<and> circuit_open_reply \<noteq> could_not_add_reply"
  using assms by (simp add: addEvent_def circuit_open_reply_def could_not_add_reply_def)

theorem open_circuit_rejects_witness:
  "circuitOpen (init\<lparr>circuitOpen := True, failureTimestamps := [0, 1000, 2000]\<rparr>)
   \<and> addEvent (\<lambda>req d. (NetworkError, 0, d)) [(''name'', JStr ''Test Event'')]
         (init\<lparr>circuitOpen := True, failureTimestamps := [0, 1000, 2000]\<rparr>)
         \<lparr>clock = 3000, dstate = (), fetched = []\<rparr>
       = (circuit_open_reply, init\<lparr>circuitOpen := True, failureTimestamps := [0, 1000, 2000]\<rparr>,
          \<lparr>clock = 3000, dstate = (), fetched = []\<rparr>)"
  using open_circuit_rejects [of "init\<lparr>circuitOpen := True, failureTimestamps := [0, 1000, 2000]\<rparr>"
      "\<lambda>req d. (NetworkError, 0, d)" "[(''name'', JStr ''Test Event'')]"
      "\<lparr>clock = 3000, dstate = (), fetched = []\<rparr>"]
  by simp

subsection \<open>Properties of the requests sent downstream\<close>

lemma map_of_spread:
  "distinct (map fst source) \<Longrightarrow> map_of (spread target source) = map_of target ++ map_of source"
proof (induction source arbitrary: target)
  case Nil
  show ?case by (simp add: spread_def)
next
  case (Cons p source)
  obtain k v where p: "p = (k, v)" by (cases p)
  from Cons.prems p have k: "k \<notin> dom (map_of source)" and d: "distinct (map fst source)"
    by (auto simp: dom_map_of_conv_image_fst)
  have "map_of (spread target (p # source)) = map_of (spread (AList.update k v target) source)"
    by (simp add: spread_def p)
  also have "\<dots> = (map_of target)(k \<mapsto> v) ++ map_of source"
    by (simp only: Cons.IH [OF d] update_conv')
  also have "\<dots> = map_of target ++ map_of (p # source)"
    using k by (auto simp: p map_add_def fun_eq_iff split: option.splits)
  finally show ?case .
qed

lemma fetched_sleep: "fetched (sleep ms w) = fetched w"
  by (simp add: sleep_def)

lemma fetched_fetch: "fetched (snd (fetch srv req w)) = fetched w @ [req]"
  by (simp add: fetch_def split: prod.splits)

lemma dstate_fetch: "dstate (snd (fetch srv req w)) = snd (snd (srv req (dstate w)))"
  by (simp add: fetch_def split: prod.splits)

lemma fetched_addEvent_attempt:
  "fetched (snd (addEvent_attempt srv request_body w))
     = fetched w @ [addEvent_request (clock w) request_body]"
  using fetched_fetch [of srv "addEvent_request (clock w) request_body" w]
  by (auto simp: addEvent_attempt_def split: prod.splits fetch_result.splits option.splits)

lemma retry_loop_fetched:
  assumes "\<And>v. \<exists>t. fetched (snd (fn v)) = fetched v @ [R t]"
  shows "\<exists>ts. fetched (snd (snd (retry_loop attempt lastError fn maxRetries baseDelay w)))
            = fetched w @ map R ts"
  using assms
proof (induction attempt lastError fn maxRetries baseDelay w rule: retry_loop.induct)
  case (1 attempt lastError fn maxRetries baseDelay w)
  show ?case
  proof (cases "attempt \<le> maxRetries")
    case False
    then have "fetched (snd (snd (retry_loop attempt lastError fn maxRetries baseDelay w)))
        = fetched w @ map R []"
      by (subst retry_loop.simps) simp
    then show ?thesis by blast
  next
    case le: True
    obtain r w1 where fw: "fn w = (r, w1)" by (cases "fn w")
    from "1.prems" [of w] fw obtain t where t: "fetched w1 = fetched w @ [R t]" by auto
    show ?thesis
    proof (cases r)
      case (Inr result)
      with le fw t have "fetched (snd (snd (retry_loop attempt lastError fn maxRetries baseDelay w)))
          = fetched w @ map R [t]"
        by (subst retry_loop.simps) simp
      then show ?thesis by blast
    next
      case (Inl error)
      show ?thesis
      proof (cases "attempt = maxRetries \<or> nullish error")
        case True
        with Inl le fw t have "fetched (snd (snd (retry_loop attempt lastError fn maxRetries baseDelay w)))
            = fetched w @ map R [t]"
          by (subst retry_loop.simps) auto
        then show ?thesis by blast
      next
        case False
        then have ne: "attempt \<noteq> maxRetries" and nn: "\<not> nullish error" by simp_all
        from "1.IH" [OF le fw [symmetric] Inl ne nn "1.prems"]
        obtain ts where ts: "fetched (snd (snd (retry_loop (attempt + 1) error fn maxRetries baseDelay
              (sleep (baseDelay * 2 ^ nat attempt) w1))))
            = fetched (sleep (baseDelay * 2 ^ nat attempt) w1) @ map R ts" by blast
        with Inl le fw t ne nn
        have "fetched (snd (snd (retry_loop attempt lastError fn maxRetries baseDelay w)))
            = fetched w @ map R (t # ts)"
          by (subst retry_loop.simps) (auto simp: fetched_sleep split: prod.splits)
        then show ?thesis by blast
      qed
    qed
  qed
qed

lemma fetched_addEvent:
  "\<exists>ts. fetched (snd (snd (addEvent srv request_body s w)))
     = fetched w @ map (\<lambda>t. addEvent_request t request_body) ts"
proof (cases "circuitOpen s")
  case True
  then have "fetched (snd (snd (addEvent srv request_body s w)))
     = fetched w @ map (\<lambda>t. addEvent_request t request_body) []"
    by (simp add: addEvent_def)
  then show ?thesis by blast
next
  case False
  have "\<And>v. \<exists>t. fetched (snd (addEvent_attempt srv request_body v))
      = fetched v @ [addEvent_request t request_body]"
    using fetched_addEvent_attempt by blast
  from retry_loop_fetched [of "addEvent_attempt srv request_body" "\<lambda>t. addEvent_request t request_body",
      OF this, of 0 ThrownUndefined MAX_RETRIES INITIAL_RETRY_DELAY w]
  obtain ts where "fetched (snd (snd (retryWithBackoff (addEvent_attempt srv request_body)
        MAX_RETRIES INITIAL_RETRY_DELAY w))) = fetched w @ map (\<lambda>t. addEvent_request t request_body) ts"
    unfolding retryWithBackoff_def by blast
  with False have "fetched (snd (snd (addEvent srv request_body s w)))
     = fetched w @ map (\<lambda>t. addEvent_request t request_body) ts"
    by (auto simp: addEvent_def success_path_def Let_def split: prod.splits sum.splits)
  then show ?thesis by blast
qed

text \<open>
  C10. Each attempt of the handler sends one request whose body is the inbound payload
  spread over \<open>{id: now}\<close>, with \<open>now\<close> the clock at that attempt; every request the
  handler sends has this shape. As a map the body is the payload merged over the
  server-assigned id, so an \<open>id\<close> supplied by the client replaces the server's, and the
  server's id stands only when the client sent none. (A payload is an object: its keys
  are distinct.)
\<close>

theorem addEvent_body_spread:
  assumes "distinct (map fst request_body)"
  shows "fetched (snd (addEvent_attempt srv request_body w))
           = fetched w @ [addEvent_request (clock w) request_body]
       \<and> (\<exists>ts. fetched (snd (snd (addEvent srv request_body s w)))
                  = fetched w @ map (\<lambda>t. addEvent_request t request_body) ts)
       \<and> map_of (body (addEvent_request now request_body))
           = [''id'' \<mapsto> JNum now] ++ map_of request_body
       \<and> (\<forall>v. map_of request_body ''id'' = Some v \<longrightarrow>
             map_of (body (addEvent_request now request_body)) ''id'' = Some v)
       \<and> (map_of request_body ''id'' = None \<longrightarrow>
             map_of (body (addEvent_request now request_body)) ''id'' = Some (JNum now))"
proof (intro conjI)
  have m: "map_of (body (addEvent_request now request_body))
      = map_of [(''id'', JNum now)] ++ map_of request_body"
    using assms by (simp add: addEvent_request_def map_of_spread)
  show "fetched (snd (addEvent_attempt srv request_body w))
           = fetched w @ [addEvent_request (clock w) request_body]"
    by (rule fetched_addEvent_attempt)
  show "\<exists>ts. fetched (snd (snd (addEvent srv request_body s w)))
                  = fetched w @ map (\<lambda>t. addEvent_request t request_body) ts"
    by (rule fetched_addEvent)
  show "map_of (body (addEvent_request now request_body))
           = [''id'' \<mapsto> JNum now] ++ map_of request_body"
    using m by simp
  show "\<forall>v. map_of request_body ''id'' = Some v \<longrightarrow>
             map_of (body (addEvent_request now request_body)) ''id'' = Some v"
    unfolding m by (simp add: map_add_def)
  show "map_of request_body ''id'' = None \<longrightarrow>
             map_of (body (addEvent_request now request_body)) ''id'' = Some (JNum now)"
    unfolding m by (simp add: map_add_def)
qed

theorem addEvent_body_spread_witness:
  "distinct (map fst [(''name'', JStr ''Test Event''), (''id'', JNum 7), (''userId'', JStr ''1'')])
   \<and> body (addEvent_request 1700000000000 [(''name'', JStr ''Test Event''), (''id'', JNum 7), (''userId'', JStr ''1'')])
       = [(''id'', JNum 7), (''name'', JStr ''Test Event''), (''userId'', JStr ''1'')]
   \<and> map_of (body (addEvent_request 1700000000000
         [(''name'', JStr ''Test Event''), (''id'', JNum 7), (''userId'', JStr ''1'')])) ''id'' = Some (JNum 7)"
  using addEvent_body_spread [of "[(''name'', JStr ''Test Event''), (''id'', JNum 7), (''userId'', JStr ''1'')]"
      "\<lambda>req d. (NetworkError, 0, d)" "\<lparr>clock = 0, dstate = (), fetched = []\<rparr>" init 1700000000000]
  by (simp add: addEvent_request_def spread_def)

text \<open>
  C9. A recovery probe (the function, and both timer callbacks through it) sends exactly
  one request: a POST to http://event.com/addEvent, the method, address and headers of a
  real event creation, with the fixed body \<open>{name: '__probe__', userId: 'probe'}\<close>.
  The service's state after the probe is whatever it makes of that request, so a service
  that stores what it accepts stores a probe event.
\<close>

theorem probe_is_real_post:
  "fetched (snd (snd (probeExternalService srv s w))) = fetched w @ [probe_request]
   \<and> dstate (snd (snd (probeExternalService srv s w))) = snd (snd (srv probe_request (dstate w)))
   \<and> fetched (snd (run_callback srv cb s w)) = fetched w @ [probe_request]
   \<and> http_method probe_request = ''POST''
   \<and> url probe_request = ''http://event.com/addEvent''
   \<and> body probe_request = [(''name'', JStr ''__probe__''), (''userId'', JStr ''probe'')]
   \<and> url probe_request = url (addEvent_request now request_body)
   \<and> http_method probe_request = http_method (addEvent_request now request_body)
   \<and> headers probe_request = headers (addEvent_request now request_body)"
proof -
  have a: "snd (snd (probeExternalService srv s w)) = snd (fetch srv probe_request w)"
    by (simp add: probeExternalService_def split: prod.splits)
  have b: "snd (run_callback srv cb s w) = snd (fetch srv probe_request w)"
    by (simp add: run_callback_def probeExternalService_def split: prod.splits)
  show ?thesis
    unfolding a b fetched_fetch dstate_fetch
    by (simp add: probe_request_def addEvent_request_def addEvent_url_def)
qed

theorem probe_is_real_post_witness:
  "dstate (snd (snd (probeExternalService
       (\<lambda>req d. (Resolved \<lparr>status = 200, json = Some (JObj [(''success'', JBool True)])\<rparr>, 0, d @ [body req]))
       init \<lparr>clock = 32000, dstate = [], fetched = []\<rparr>)))
     = [[(''name'', JStr ''__probe__''), (''userId'', JStr ''probe'')]]"
  using probe_is_real_post [of
      "\<lambda>req d. (Resolved \<lparr>status = 200, json = Some (JObj [(''success'', JBool True)])\<rparr>, 0, d @ [body req])"
      init "\<lparr>clock = 32000, dstate = [], fetched = []\<rparr>"]
  by (simp add: probe_request_def)

subsection \<open>Properties of the probe and of the success path\<close>

lemma probe_resume_ok:
  "probe_ok res \<Longrightarrow>
   probe_resume res s = (True, s\<lparr>circuitOpen := False, failureTimestamps := [], nextProbe := None\<rparr>)"
  by (cases res) (simp_all add: probe_resume_def)

lemma probe_resume_not_ok: "\<not> probe_ok res \<Longrightarrow> probe_resume res s = (False, s)"
  by (cases res) (simp_all add: probe_resume_def)

lemma probeExternalService_ok:
  assumes "probe_ok (fst (srv probe_request (dstate w)))"
  shows "probeExternalService srv s w =
     (True, s\<lparr>circuitOpen := False, failureTimestamps := [], nextProbe := None\<rparr>,
      snd (fetch srv probe_request w))"
proof -
  have "fst (fetch srv probe_request w) = fst (srv probe_request (dstate w))"
    by (simp add: fetch_def split: prod.splits)
  with assms have k: "probe_ok (fst (fetch srv probe_request w))" by simp
  obtain res w' where f: "fetch srv probe_request w = (res, w')"
    by (cases "fetch srv probe_request w")
  with k have "probe_ok res" by simp
  then show ?thesis
    by (simp add: probeExternalService_def f probe_resume_ok)
qed

lemma failure_branch_same:
  assumes "failureTimestamps s = failureTimestamps s0" and "circuitOpen s = circuitOpen s0"
    and "(nextProbe s = None) = (nextProbe s0 = None)"
  shows "failureTimestamps (failure_branch now s) = failureTimestamps (failure_branch now s0)
       \<and> circuitOpen (failure_branch now s) = circuitOpen (failure_branch now s0)
       \<and> (nextProbe (failure_branch now s) = None) = (nextProbe (failure_branch now s0) = None)"
  using assms by (simp add: failure_branch_def setTimeout_def Let_def)

lemma success_branch_fields:
  "failureTimestamps (success_branch now s) = prune now (failureTimestamps s)"
  "circuitOpen (success_branch now s) = circuitOpen s"
  "nextProbe (success_branch now s) = nextProbe s"
  "timers (success_branch now s) = timers s"
  "next_handle (success_branch now s) = next_handle s"
  "probing (success_branch now s) = probing s"
  "inflight (success_branch now s) = inflight s"
  by (simp_all add: success_branch_def)

lemma addEvent_same:
  assumes "failureTimestamps s = failureTimestamps s0" and "circuitOpen s = circuitOpen s0"
    and "(nextProbe s = None) = (nextProbe s0 = None)"
  shows "fst (addEvent srv request_body s w) = fst (addEvent srv request_body s0 w)
       \<and> snd (snd (addEvent srv request_body s w)) = snd (snd (addEvent srv request_body s0 w))
       \<and> failureTimestamps (fst (snd (addEvent srv request_body s w)))
           = failureTimestamps (fst (snd (addEvent srv request_body s0 w)))
       \<and> circuitOpen (fst (snd (addEvent srv request_body s w)))
           = circuitOpen (fst (snd (addEvent srv request_body s0 w)))"
proof (cases "circuitOpen s")
  case True
  with assms show ?thesis by (simp add: addEvent_def)
next
  case False
  obtain r log w' where r: "retryWithBackoff (addEvent_attempt srv request_body)
      MAX_RETRIES INITIAL_RETRY_DELAY w = (r, log, w')" by (cases "retryWithBackoff (addEvent_attempt srv request_body)
      MAX_RETRIES INITIAL_RETRY_DELAY w") auto
  have f: "failureTimestamps (failure_branch (clock w') s) = failureTimestamps (failure_branch (clock w') s0)
       \<and> circuitOpen (failure_branch (clock w') s) = circuitOpen (failure_branch (clock w') s0)"
    using failure_branch_same [OF assms] by simp
  have g: "failureTimestamps (failure_branch (clock w') (success_branch (clock w') s))
        = failureTimestamps (failure_branch (clock w') (success_branch (clock w') s0))
       \<and> circuitOpen (failure_branch (clock w') (success_branch (clock w') s))
        = circuitOpen (failure_branch (clock w') (success_branch (clock w') s0))"
    using failure_branch_same [of "success_branch (clock w') s" "success_branch (clock w') s0"] assms
    by (simp add: success_branch_fields)
  from False assms(2) have "\<not> circuitOpen s0" by simp
  with False r f g assms show ?thesis
    by (cases r) (simp_all add: addEvent_def success_path_def Let_def success_branch_fields)
qed

text \<open>
  C4. When the probe's request comes back with an ok status, \<open>probeExternalService\<close>
  returns true and leaves the circuit closed, the failure window empty and the probe
  handle null (nothing else changes, and the timer callbacks arm nothing). The next
  request is then answered as from the initial state, in which no failure was ever
  recorded: same reply, same calls downstream, same window and circuit flag afterwards.
\<close>

theorem probe_success_resets:
  assumes "probe_ok (fst (srv probe_request (dstate w)))"
  shows "fst (probeExternalService srv s w)
       \<and> fst (snd (probeExternalService srv s w))
           = s\<lparr>circuitOpen := False, failureTimestamps := [], nextProbe := None\<rparr>
       \<and> (\<forall>cb. fst (run_callback srv cb s w) = fst (snd (probeExternalService srv s w)))
       \<and> (\<forall>srv' request_body v.
             fst (addEvent srv' request_body (fst (snd (probeExternalService srv s w))) v)
               = fst (addEvent srv' request_body init v)
           \<and> snd (snd (addEvent srv' request_body (fst (snd (probeExternalService srv s w))) v))
               = snd (snd (addEvent srv' request_body init v))
           \<and> failureTimestamps (fst (snd (addEvent srv' request_body (fst (snd (probeExternalService srv s w))) v)))
               = failureTimestamps (fst (snd (addEvent srv' request_body init v)))
           \<and> circuitOpen (fst (snd (addEvent srv' request_body (fst (snd (probeExternalService srv s w))) v)))
               = circuitOpen (fst (snd (addEvent srv' request_body init v))))"
proof -
  let ?s' = "s\<lparr>circuitOpen := False, failureTimestamps := [], nextProbe := None\<rparr>"
  have p: "probeExternalService srv s w = (True, ?s', snd (fetch srv probe_request w))"
    using assms by (rule probeExternalService_ok)
  have c: "\<And>cb. fst (run_callback srv cb s w) = ?s'"
  proof -
    fix cb show "fst (run_callback srv cb s w) = ?s'"
      by (cases cb) (simp_all add: run_callback_def p)
  qed
  have a: "\<And>srv' request_body v.
      fst (addEvent srv' request_body ?s' v) = fst (addEvent srv' request_body init v)
       \<and> snd (snd (addEvent srv' request_body ?s' v)) = snd (snd (addEvent srv' request_body init v))
       \<and> failureTimestamps (fst (snd (addEvent srv' request_body ?s' v)))
           = failureTimestamps (fst (snd (addEvent srv' request_body init v)))
       \<and> circuitOpen (fst (snd (addEvent srv' request_body ?s' v)))
           = circuitOpen (fst (snd (addEvent srv' request_body init v)))"
    by (rule addEvent_same) (simp_all add: init_def)
  show ?thesis
    unfolding p fst_conv snd_conv using c a by blast
qed

theorem probe_success_resets_witness:
  "probe_ok (fst ((\<lambda>req d. (Resolved \<lparr>status = 200, json = Some (JObj [(''success'', JBool True)])\<rparr>, 40, d))
       probe_request (dstate \<lparr>clock = 62000, dstate = (), fetched = []\<rparr>)))
   \<and> fst (snd (probeExternalService
        (\<lambda>req d. (Resolved \<lparr>status = 200, json = Some (JObj [(''success'', JBool True)])\<rparr>, 40, d))
        \<lparr>failureTimestamps = [0, 1000, 2000], circuitOpen = True, nextProbe = Some 1,
         timers = [], next_handle = 2, probing = [], inflight = 0\<rparr>
        \<lparr>clock = 62000, dstate = (), fetched = []\<rparr>))
     = \<lparr>failureTimestamps = [], circuitOpen = False, nextProbe = None,
        timers = [], next_handle = 2, probing = [], inflight = 0\<rparr>"
proof -
  let ?srv = "\<lambda>(req::request) (d::unit).
      (Resolved \<lparr>status = 200, json = Some (JObj [(''success'', JBool True)])\<rparr>, 40::nat, d)"
  let ?w = "\<lparr>clock = 62000, dstate = (), fetched = []\<rparr>"
  let ?s = "\<lparr>failureTimestamps = [0, 1000, 2000], circuitOpen = True, nextProbe = Some 1,
         timers = [], next_handle = 2, probing = [], inflight = 0\<rparr>"
  have h: "probe_ok (fst (?srv probe_request (dstate ?w)))" by (simp add: ok_def)
  from h probe_success_resets [of ?srv ?w ?s]
  have "fst (snd (probeExternalService ?srv ?s ?w))
      = ?s\<lparr>circuitOpen := False, failureTimestamps := [], nextProbe := None\<rparr>" by blast
  with h show ?thesis by simp
qed

text \<open>
  C7, as stated, fails in both halves. On the open circuit: four requests are admitted
  while the circuit is closed; three of them fail at 0, 20000 and 29000 ms, which opens
  the circuit; the fourth succeeds at 30001 ms. STEP 3 has no test of \<open>circuitOpen\<close>:
  it drops the entry 0 from the window although the circuit is open. On the closed
  circuit: after failures at 0 and 1000 ms a third request succeeds at 2000 ms with the
  answer \<open>null\<close>; the success path throws at \<open>data.id\<close>, and the \<open>catch\<close> block
  then records a third failure, which opens the circuit.
\<close>

theorem success_while_open_counterexample:
  "run [Arrive, Arrive, Arrive, Arrive, Fail 0, Fail 20000, Fail 29000] init
     = Some \<lparr>failureTimestamps = [0, 20000, 29000], circuitOpen = True, nextProbe = Some 0,
             timers = [\<lparr>handle = 0, callback = FirstProbe, delay = 30000\<rparr>],
             next_handle = 1, probing = [], inflight = 1\<rparr>
   \<and> circuitOpen \<lparr>failureTimestamps = [0, 20000, 29000], circuitOpen = True, nextProbe = Some 0,
             timers = [\<lparr>handle = 0, callback = FirstProbe, delay = 30000\<rparr>],
             next_handle = 1, probing = [], inflight = 1\<rparr>
   \<and> success_branch 30001
         \<lparr>failureTimestamps = [0, 20000, 29000], circuitOpen = True, nextProbe = Some 0,
          timers = [\<lparr>handle = 0, callback = FirstProbe, delay = 30000\<rparr>],
          next_handle = 1, probing = [], inflight = 1\<rparr>
       = \<lparr>failureTimestamps = [20000, 29000], circuitOpen = True, nextProbe = Some 0,
          timers = [\<lparr>handle = 0, callback = FirstProbe, delay = 30000\<rparr>],
          next_handle = 1, probing = [], inflight = 1\<rparr>
   \<and> success_branch 30001
         \<lparr>failureTimestamps = [0, 20000, 29000], circuitOpen = True, nextProbe = Some 0,
          timers = [\<lparr>handle = 0, callback = FirstProbe, delay = 30000\<rparr>],
          next_handle = 1, probing = [], inflight = 1\<rparr>
       \<noteq> \<lparr>failureTimestamps = [0, 20000, 29000], circuitOpen = True, nextProbe = Some 0,
          timers = [\<lparr>handle = 0, callback = FirstProbe, delay = 30000\<rparr>],
          next_handle = 1, probing = [], inflight = 1\<rparr>
   \<and> run [Arrive, Arrive, Arrive, Fail 0, Fail 1000] init
     = Some \<lparr>failureTimestamps = [0, 1000], circuitOpen = False, nextProbe = None,
             timers = [], next_handle = 0, probing = [], inflight = 1\<rparr>
   \<and> success_path JNull 2000
         \<lparr>failureTimestamps = [0, 1000], circuitOpen = False, nextProbe = None,
          timers = [], next_handle = 0, probing = [], inflight = 1\<rparr>
       = (Inl DataIdTypeError,
          \<lparr>failureTimestamps = [0, 1000], circuitOpen = False, nextProbe = None,
           timers = [], next_handle = 0, probing = [], inflight = 1\<rparr>)
   \<and> circuitOpen (failure_branch 2000
         \<lparr>failureTimestamps = [0, 1000], circuitOpen = False, nextProbe = None,
          timers = [], next_handle = 0, probing = [], inflight = 1\<rparr>)"
  by (simp add: init_def failure_branch_def success_branch_def success_path_def setTimeout_def
      Let_def FAILURE_WINDOW_def FAILURE_THRESHOLD_def BACKOFF_TIME_def)

text \<open>
  The same on the handler as a whole: a closed circuit with failures on record at 0 and
  1000 ms, a service that answers 200 with the body \<open>null\<close>, a request at 2000 ms. One
  request is sent and accepted, the reply is the 503 "Could not add event", and the
  circuit ends open with a probe timer armed.
\<close>

lemma null_answer_opens_closed_circuit:
  "addEvent (\<lambda>req d. (Resolved \<lparr>status = 200, json = Some JNull\<rparr>, 0, d))
      [(''name'', JStr ''Test Event''), (''userId'', JStr ''1'')]
      \<lparr>failureTimestamps = [0, 1000], circuitOpen = False, nextProbe = None,
       timers = [], next_handle = 0, probing = [], inflight = 0\<rparr>
      \<lparr>clock = 2000, dstate = (), fetched = []\<rparr>
   = (could_not_add_reply,
      \<lparr>failureTimestamps = [0, 1000, 2000], circuitOpen = True, nextProbe = Some 0,
       timers = [\<lparr>handle = 0, callback = FirstProbe, delay = 30000\<rparr>],
       next_handle = 1, probing = [], inflight = 0\<rparr>,
      \<lparr>clock = 2000, dstate = (),
       fetched = [addEvent_request 2000 [(''name'', JStr ''Test Event''), (''userId'', JStr ''1'')]]\<rparr>)"
  unfolding addEvent_def retryWithBackoff_def
  by (subst retry_loop.simps)
    (simp add: addEvent_attempt_def fetch_def ok_def success_path_def success_branch_def
      failure_branch_def setTimeout_def Let_def MAX_RETRIES_def
      FAILURE_WINDOW_def FAILURE_THRESHOLD_def BACKOFF_TIME_def)

text \<open>
  C7, amended. For a successful call whose answer is not \<open>null\<close>, in every state,
  closed or open: the success path does not throw and sends the answer with status 200;
  it leaves the circuit flag, the probe handle and the timers as they are, so a closed
  circuit stays closed and an open one stays open; its only effect on the breaker is to
  drop stale entries from the front of the window, and it changes nothing when no entry
  of the window is stale. So the handler, on a closed circuit, ends with the pruned
  window and nothing else changed. (What happens on the answer \<open>null\<close> is left out.)
\<close>

theorem success_path_only_prunes:
  assumes "data \<noteq> JNull"
  shows "success_path data now s
           = (Inr \<lparr>code = 200, payload = data\<rparr>,
              s\<lparr>failureTimestamps := prune now (failureTimestamps s)\<rparr>)
       \<and> circuitOpen (snd (success_path data now s)) = circuitOpen s
       \<and> nextProbe (snd (success_path data now s)) = nextProbe s
       \<and> timers (snd (success_path data now s)) = timers s
       \<and> (\<exists>stale. failureTimestamps s = stale @ failureTimestamps (snd (success_path data now s))
             \<and> (\<forall>e \<in> set stale. now - e > FAILURE_WINDOW))
       \<and> ((\<forall>e \<in> set (failureTimestamps s). now - e \<le> FAILURE_WINDOW)
             \<longrightarrow> snd (success_path data now s) = s)
       \<and> (\<forall>srv request_body w log w'.
             \<not> circuitOpen s
             \<and> retryWithBackoff (addEvent_attempt srv request_body) MAX_RETRIES INITIAL_RETRY_DELAY w
                 = (Inr data, log, w')
             \<longrightarrow> addEvent srv request_body s w
                   = (\<lparr>code = 200, payload = data\<rparr>,
                      s\<lparr>failureTimestamps := prune (clock w') (failureTimestamps s)\<rparr>, w'))"
proof -
  have p: "\<And>t. success_path data t s
      = (Inr \<lparr>code = 200, payload = data\<rparr>, s\<lparr>failureTimestamps := prune t (failureTimestamps s)\<rparr>)"
    using assms by (simp add: success_path_def success_branch_def)
  have st: "\<exists>stale. failureTimestamps s = stale @ prune now (failureTimestamps s)
         \<and> (\<forall>e \<in> set stale. now - e > FAILURE_WINDOW)"
    by (rule prune_suffix)
  have ns: "(\<forall>e \<in> set (failureTimestamps s). now - e \<le> FAILURE_WINDOW)
      \<longrightarrow> s\<lparr>failureTimestamps := prune now (failureTimestamps s)\<rparr> = s"
  proof
    assume "\<forall>e \<in> set (failureTimestamps s). now - e \<le> FAILURE_WINDOW"
    then have "prune now (failureTimestamps s) = failureTimestamps s"
      by (cases "failureTimestamps s") auto
    then show "s\<lparr>failureTimestamps := prune now (failureTimestamps s)\<rparr> = s" by simp
  qed
  have h: "\<forall>srv request_body w log w'.
             \<not> circuitOpen s
             \<and> retryWithBackoff (addEvent_attempt srv request_body) MAX_RETRIES INITIAL_RETRY_DELAY w
                 = (Inr data, log, w')
             \<longrightarrow> addEvent srv request_body s w
                   = (\<lparr>code = 200, payload = data\<rparr>,
                      s\<lparr>failureTimestamps := prune (clock w') (failureTimestamps s)\<rparr>, w')"
    by (simp add: addEvent_def p)
  show ?thesis
    unfolding p snd_conv using st ns h by simp
qed

theorem success_path_only_prunes_witness:
  "JObj [(''success'', JBool True)] \<noteq> JNull
   \<and> success_path (JObj [(''success'', JBool True)]) 31000
        \<lparr>failureTimestamps = [0, 1000, 25000], circuitOpen = False, nextProbe = None,
         timers = [], next_handle = 0, probing = [], inflight = 0\<rparr>
     = (Inr \<lparr>code = 200, payload = JObj [(''success'', JBool True)]\<rparr>,
        \<lparr>failureTimestamps = [1000, 25000], circuitOpen = False, nextProbe = None,
         timers = [], next_handle = 0, probing = [], inflight = 0\<rparr>)"
proof -
  let ?s = "\<lparr>failureTimestamps = [0, 1000, 25000], circuitOpen = False, nextProbe = None,
         timers = [], next_handle = 0, probing = [], inflight = 0\<rparr>"
  have n: "JObj [(''success'', JBool True)] \<noteq> JNull" by simp
  from success_path_only_prunes [OF n, of 31000 ?s]
  have "success_path (JObj [(''success'', JBool True)]) 31000 ?s
      = (Inr \<lparr>code = 200, payload = JObj [(''success'', JBool True)]\<rparr>,
         ?s\<lparr>failureTimestamps := prune 31000 (failureTimestamps ?s)\<rparr>)" by blast
  then show ?thesis by (simp add: FAILURE_WINDOW_def)
qed

subsection \<open>At most one probe: an invariant of all interleavings\<close>

lemma failure_branch_fields:
  "failureTimestamps (failure_branch now s) = prune now (failureTimestamps s @ [now])"
  "circuitOpen (failure_branch now s)
     = (circuitOpen s \<or> FAILURE_THRESHOLD \<le> length (prune now (failureTimestamps s @ [now])))"
  "probing (failure_branch now s) = probing s"
  "inflight (failure_branch now s) = inflight s"
  by (auto simp: failure_branch_def setTimeout_def Let_def)

lemma failure_branch_arms:
  assumes "FAILURE_THRESHOLD \<le> length (prune now (failureTimestamps s @ [now]))"
    and "\<not> circuitOpen s" and "nextProbe s = None"
  shows "timers (failure_branch now s)
           = timers s @ [\<lparr>handle = next_handle s, callback = FirstProbe, delay = BACKOFF_TIME\<rparr>]"
    and "nextProbe (failure_branch now s) = Some (next_handle s)"
    and "next_handle (failure_branch now s) = next_handle s + 1"
  using assms by (simp_all add: failure_branch_def setTimeout_def Let_def)

lemma failure_branch_keeps_timers:
  assumes "circuitOpen s \<or> nextProbe s \<noteq> None
      \<or> \<not> FAILURE_THRESHOLD \<le> length (prune now (failureTimestamps s @ [now]))"
  shows "timers (failure_branch now s) = timers s"
    and "nextProbe (failure_branch now s) = nextProbe s"
    and "next_handle (failure_branch now s) = next_handle s"
  using assms by (auto simp: failure_branch_def setTimeout_def Let_def)

lemma callback_resume_recovered: "callback_resume cb True s = s"
  by (cases cb) simp_all

lemma callback_resume_failed:
  "callback_resume cb False s
     = s\<lparr>timers := timers s @ [\<lparr>handle = next_handle s, callback = Retry, delay = BACKOFF_TIME\<rparr>],
         next_handle := next_handle s + 1, nextProbe := Some (next_handle s)\<rparr>"
  by (cases cb) (simp_all add: setTimeout_def)

lemma probe_inv_init: "probe_inv init"
  by (simp add: probe_inv_def init_def)

lemma probe_inv_failure_branch:
  assumes "probe_inv s"
  shows "probe_inv ((failure_branch now s)\<lparr>inflight := n\<rparr>)"
proof (cases "FAILURE_THRESHOLD \<le> length (prune now (failureTimestamps s @ [now]))
     \<and> \<not> circuitOpen s")
  case True
  with assms have n: "nextProbe s = None" and t: "timers s = []" and p: "probing s = []"
    by (simp_all add: probe_inv_def)
  from True n show ?thesis
    by (simp add: probe_inv_def failure_branch_arms failure_branch_fields t p)
next
  case False
  then have k: "circuitOpen s \<or> nextProbe s \<noteq> None
      \<or> \<not> FAILURE_THRESHOLD \<le> length (prune now (failureTimestamps s @ [now]))" by blast
  from assms False show ?thesis
    by (auto simp: probe_inv_def failure_branch_keeps_timers [OF k] failure_branch_fields)
qed

lemma find_Some_mem: "find P xs = Some x \<Longrightarrow> x \<in> set xs \<and> P x"
  by (induction xs) (auto split: if_splits)

lemma probe_inv_step:
  assumes "probe_inv s" and "step e s = Some s'"
  shows "probe_inv s'"
proof (cases e)
  case Arrive
  with assms show ?thesis by (auto simp: probe_inv_def split: if_splits)
next
  case (Succeed now)
  with assms show ?thesis by (auto simp: probe_inv_def success_branch_def split: if_splits)
next
  case (Fail now)
  with assms(2) have "s' = (failure_branch now s)\<lparr>inflight := inflight s - 1\<rparr>"
    by (auto split: if_splits)
  with assms(1) show ?thesis by (simp add: probe_inv_failure_branch)
next
  case (Fire h)
  with assms(2) obtain t where f: "find (\<lambda>t. handle t = h) (timers s) = Some t"
    and s': "s' = s\<lparr>timers := remove1 t (timers s), probing := probing s @ [callback t]\<rparr>"
    by (auto split: option.splits)
  from f have "t \<in> set (timers s)" by (simp add: find_Some_mem)
  with assms(1) have ts: "timers s = [t]" and p: "probing s = []" and o: "circuitOpen s"
    by (cases "timers s"; auto simp: probe_inv_def)+
  show ?thesis by (simp add: probe_inv_def s' ts p o)
next
  case (ProbeDone i res)
  with assms(2) have i: "i < length (probing s)"
    and s': "s' = (callback_resume (probing s ! i) (fst (probe_resume res s)) (snd (probe_resume res s)))
        \<lparr>probing := take i (probing s) @ drop (Suc i) (probing s)\<rparr>"
    by (auto split: if_splits prod.splits)
  from assms(1) have "length (timers s) + length (probing s) \<le> 1" by (simp add: probe_inv_def)
  with i have l: "length (probing s) = 1" and lt: "length (timers s) = 0" by linarith+
  from lt have ts: "timers s = []" by simp
  from i assms(1) have o: "circuitOpen s" by (auto simp: probe_inv_def)
  from i l have i0: "i = 0" by simp
  from l have dr: "drop (Suc 0) (probing s) = []" by simp
  show ?thesis
  proof (cases "probe_ok res")
    case True
    then show ?thesis
      by (simp add: s' probe_resume_ok callback_resume_recovered probe_inv_def ts i0 dr)
  next
    case False
    then show ?thesis
      by (simp add: s' probe_resume_not_ok callback_resume_failed probe_inv_def ts o i0 dr)
  qed
qed

lemma probe_inv_run:
  "probe_inv s \<Longrightarrow> run evs s = Some s' \<Longrightarrow> probe_inv s'"
proof (induction evs arbitrary: s)
  case Nil
  then show ?case by simp
next
  case (Cons e evs)
  from Cons.prems(2) obtain s1 where s1: "step e s = Some s1" and r: "run evs s1 = Some s'"
    by (auto split: option.splits)
  from Cons.prems(1) s1 have "probe_inv s1" by (rule probe_inv_step)
  from Cons.IH [OF this r] show ?case .
qed

lemma probe_inv_reachable: "run evs init = Some s \<Longrightarrow> probe_inv s"
  using probe_inv_init by (rule probe_inv_run)

lemma step_Fire_reachable:
  assumes "probe_inv s" and "step (Fire h) s = Some s1"
  shows "timers s1 = []" and "h < next_handle s" and "next_handle s1 = next_handle s"
    and "failureTimestamps s1 = failureTimestamps s" and "circuitOpen s1 = circuitOpen s"
proof -
  from assms(2) obtain t where f: "find (\<lambda>t. handle t = h) (timers s) = Some t"
    and s1: "s1 = s\<lparr>timers := remove1 t (timers s), probing := probing s @ [callback t]\<rparr>"
    by (auto split: option.splits)
  have m: "t \<in> set (timers s)" and h: "handle t = h" using find_Some_mem [OF f] by simp_all
  from m assms(1) have ts: "timers s = [t]" and p: "probing s = []"
    by (cases "timers s"; auto simp: probe_inv_def)+
  from m assms(1) have "handle t < next_handle s" by (simp add: probe_inv_def)
  with h show "h < next_handle s" by simp
  show "timers s1 = []" by (simp add: s1 ts)
  show "next_handle s1 = next_handle s" "failureTimestamps s1 = failureTimestamps s"
    "circuitOpen s1 = circuitOpen s" by (simp_all add: s1)
qed

lemma step_ProbeDone_failed:
  assumes "\<not> probe_ok res" and "step (ProbeDone i res) s = Some s'"
  shows "s' = s\<lparr>timers := timers s @ [\<lparr>handle = next_handle s, callback = Retry, delay = BACKOFF_TIME\<rparr>],
               next_handle := next_handle s + 1, nextProbe := Some (next_handle s),
               probing := take i (probing s) @ drop (Suc i) (probing s)\<rparr>"
  using assms
  by (auto simp: probe_resume_not_ok callback_resume_failed split: if_splits)

text \<open>
  C3. In every state reached from the initial one by any sequence of arrivals, request
  outcomes, timer firings and probe outcomes, pending probe timers and probes in flight
  together number at most one. While a probe is scheduled or in flight the failure branch
  arms no timer, whatever the time and the window; and when the pending timer fires and
  its probe fails, the fired timer is gone and exactly one new timer takes its place.
\<close>

theorem at_most_one_probe_timer:
  assumes "run evs init = Some s"
  shows "length (timers s) + length (probing s) \<le> 1
       \<and> (\<forall>now. timers s \<noteq> [] \<or> probing s \<noteq> [] \<or> nextProbe s \<noteq> None
              \<longrightarrow> timers (failure_branch now s) = timers s)
       \<and> (\<forall>h res s1 s2.
             step (Fire h) s = Some s1 \<and> step (ProbeDone 0 res) s1 = Some s2 \<and> \<not> probe_ok res
              \<longrightarrow> timers s1 = [] \<and> h < next_handle s
                \<and> timers s2 = [\<lparr>handle = next_handle s, callback = Retry, delay = BACKOFF_TIME\<rparr>])"
proof (intro conjI allI impI)
  from assms have inv: "probe_inv s" by (rule probe_inv_reachable)
  then show "length (timers s) + length (probing s) \<le> 1" by (simp add: probe_inv_def)
  {
    fix now
    assume "timers s \<noteq> [] \<or> probing s \<noteq> [] \<or> nextProbe s \<noteq> None"
    with inv have "circuitOpen s \<or> nextProbe s \<noteq> None
        \<or> \<not> FAILURE_THRESHOLD \<le> length (prune now (failureTimestamps s @ [now]))"
      by (auto simp: probe_inv_def)
    then show "timers (failure_branch now s) = timers s" by (rule failure_branch_keeps_timers)
  }
  {
    fix h res s1 s2
    assume a: "step (Fire h) s = Some s1 \<and> step (ProbeDone 0 res) s1 = Some s2 \<and> \<not> probe_ok res"
    then have f: "step (Fire h) s = Some s1" and p: "step (ProbeDone 0 res) s1 = Some s2"
      and r: "\<not> probe_ok res" by simp_all
    from step_Fire_reachable [OF inv f] show "timers s1 = []" and "h < next_handle s" by simp_all
    from step_ProbeDone_failed [OF r p] step_Fire_reachable [OF inv f]
    show "timers s2 = [\<lparr>handle = next_handle s, callback = Retry, delay = BACKOFF_TIME\<rparr>]"
      by simp
  }
qed

theorem at_most_one_probe_timer_witness:
  "run [Arrive, Arrive, Arrive, Fail 0, Fail 1000, Fail 2000, Arrive, Fire 0,
        ProbeDone 0 NetworkError] init
     = Some \<lparr>failureTimestamps = [0, 1000, 2000], circuitOpen = True, nextProbe = Some 1,
             timers = [\<lparr>handle = 1, callback = Retry, delay = 30000\<rparr>],
             next_handle = 2, probing = [], inflight = 0\<rparr>
   \<and> length (timers \<lparr>failureTimestamps = [0, 1000, 2000], circuitOpen = True, nextProbe = Some 1,
             timers = [\<lparr>handle = 1, callback = Retry, delay = 30000\<rparr>],
             next_handle = 2, probing = [], inflight = 0\<rparr>) \<le> 1"
proof -
  let ?s = "\<lparr>failureTimestamps = [0, 1000, 2000], circuitOpen = True, nextProbe = Some 1,
             timers = [\<lparr>handle = 1, callback = Retry, delay = 30000\<rparr>],
             next_handle = 2, probing = [], inflight = 0\<rparr>"
  have r: "run [Arrive, Arrive, Arrive, Fail 0, Fail 1000, Fail 2000, Arrive, Fire 0,
        ProbeDone 0 NetworkError] init = Some ?s"
    by (simp add: init_def failure_branch_def setTimeout_def Let_def probe_resume_def
        FAILURE_WINDOW_def FAILURE_THRESHOLD_def BACKOFF_TIME_def)
  from at_most_one_probe_timer [OF r] have "length (timers ?s) + length (probing ?s) \<le> 1" by blast
  with r show ?thesis by simp
qed

text \<open>
  C5. When a probe fails (no connection, or a status outside 200..299), in any reachable
  state: the circuit was open and stays open, the failure window and the suspended
  handlers are untouched, and exactly one timer is pending afterwards, the callback
  \<open>retry\<close> with delay \<open>BACKOFF_TIME\<close>, referenced by \<open>nextProbe\<close>. The same holds
  after every further failure, since the resulting state is reachable again; and in any
  state at all, either callback does no more on a failed probe than arm that one timer.
\<close>

theorem failed_probe_rearms:
  assumes "run evs init = Some s" and "\<not> probe_ok res" and "step (ProbeDone i res) s = Some s'"
  shows "circuitOpen s \<and> circuitOpen s'
       \<and> failureTimestamps s' = failureTimestamps s
       \<and> inflight s' = inflight s
       \<and> probing s' = []
       \<and> timers s' = [\<lparr>handle = next_handle s, callback = Retry, delay = BACKOFF_TIME\<rparr>]
       \<and> nextProbe s' = Some (next_handle s)
       \<and> (\<forall>cb s0. callback_resume cb (fst (probe_resume res s0)) (snd (probe_resume res s0))
             = s0\<lparr>timers := timers s0 @ [\<lparr>handle = next_handle s0, callback = Retry, delay = BACKOFF_TIME\<rparr>],
                  next_handle := next_handle s0 + 1, nextProbe := Some (next_handle s0)\<rparr>)"
proof -
  from assms(1) have inv: "probe_inv s" by (rule probe_inv_reachable)
  from assms(3) have i: "i < length (probing s)" by (auto split: if_splits)
  from inv have "length (timers s) + length (probing s) \<le> 1" by (simp add: probe_inv_def)
  with i have l: "length (probing s) = 1" and lt: "length (timers s) = 0" by linarith+
  from lt have ts: "timers s = []" by simp
  from i inv have o: "circuitOpen s" by (auto simp: probe_inv_def)
  from i l have i0: "i = 0" by simp
  from l have dr: "drop (Suc 0) (probing s) = []" by simp
  note s' = step_ProbeDone_failed [OF assms(2) assms(3)]
  have g: "\<forall>cb s0. callback_resume cb (fst (probe_resume res s0)) (snd (probe_resume res s0))
             = s0\<lparr>timers := timers s0 @ [\<lparr>handle = next_handle s0, callback = Retry, delay = BACKOFF_TIME\<rparr>],
                  next_handle := next_handle s0 + 1, nextProbe := Some (next_handle s0)\<rparr>"
    using assms(2) by (simp add: probe_resume_not_ok callback_resume_failed)
  have "circuitOpen s'" "failureTimestamps s' = failureTimestamps s" "inflight s' = inflight s"
    "probing s' = []"
    "timers s' = [\<lparr>handle = next_handle s, callback = Retry, delay = BACKOFF_TIME\<rparr>]"
    "nextProbe s' = Some (next_handle s)"
    by (simp_all add: s' o ts i0 dr)
  with o g show ?thesis by blast
qed

theorem failed_probe_rearms_witness:
  "run [Arrive, Arrive, Arrive, Fail 0, Fail 1000, Fail 2000, Fire 0] init
     = Some \<lparr>failureTimestamps = [0, 1000, 2000], circuitOpen = True, nextProbe = Some 0,
             timers = [], next_handle = 1, probing = [FirstProbe], inflight = 0\<rparr>
   \<and> \<not> probe_ok (Resolved \<lparr>status = 503, json = None\<rparr>)
   \<and> step (ProbeDone 0 (Resolved \<lparr>status = 503, json = None\<rparr>))
        \<lparr>failureTimestamps = [0, 1000, 2000], circuitOpen = True, nextProbe = Some 0,
         timers = [], next_handle = 1, probing = [FirstProbe], inflight = 0\<rparr>
     = Some \<lparr>failureTimestamps = [0, 1000, 2000], circuitOpen = True, nextProbe = Some 1,
             timers = [\<lparr>handle = 1, callback = Retry, delay = 30000\<rparr>],
             next_handle = 2, probing = [], inflight = 0\<rparr>
   \<and> timers \<lparr>failureTimestamps = [0, 1000, 2000], circuitOpen = True, nextProbe = Some 1,
             timers = [\<lparr>handle = 1, callback = Retry, delay = 30000\<rparr>],
             next_handle = 2, probing = [], inflight = 0\<rparr>
     = [\<lparr>handle = 1, callback = Retry, delay = BACKOFF_TIME\<rparr>]"
proof -
  let ?s = "\<lparr>failureTimestamps = [0, 1000, 2000], circuitOpen = True, nextProbe = Some 0,
             timers = [], next_handle = 1, probing = [FirstProbe], inflight = 0\<rparr>"
  let ?s' = "\<lparr>failureTimestamps = [0, 1000, 2000], circuitOpen = True, nextProbe = Some 1,
             timers = [\<lparr>handle = 1, callback = Retry, delay = 30000\<rparr>],
             next_handle = 2, probing = [], inflight = 0\<rparr>"
  let ?res = "Resolved \<lparr>status = 503, json = None\<rparr>"
  have r: "run [Arrive, Arrive, Arrive, Fail 0, Fail 1000, Fail 2000, Fire 0] init = Some ?s"
    by (simp add: init_def failure_branch_def setTimeout_def Let_def
        FAILURE_WINDOW_def FAILURE_THRESHOLD_def BACKOFF_TIME_def)
  have n: "\<not> probe_ok ?res" by (simp add: ok_def)
  have p: "step (ProbeDone 0 ?res) ?s = Some ?s'"
    by (simp add: probe_resume_def ok_def setTimeout_def BACKOFF_TIME_def)
  from failed_probe_rearms [OF r n p]
  have "timers ?s' = [\<lparr>handle = next_handle ?s, callback = Retry, delay = BACKOFF_TIME\<rparr>]" by blast
  with r n p show ?thesis by simp
qed

subsection \<open>Opening the circuit\<close>













lemma no_probe_in_flight_after_opening:
  assumes "probe_inv sp" and "\<not> circuitOpen sp" and "step (Fail t) sp = Some s1"
  shows "probing s1 = []" and "step (ProbeDone i res) s1 = None"
proof -
  from assms(1) assms(2) have "probing sp = []" by (simp add: probe_inv_def)
  with assms(3) show "probing s1 = []"
    by (auto simp: failure_branch_fields split: if_splits)
  then show "step (ProbeDone i res) s1 = None" by simp
qed




subsection \<open>The handler within the interleaving model\<close>

text \<open>
  A request handled without interruption changes the breaker state exactly as its
  pieces do in the interleaving model: the arrival alone when the circuit is open, and
  otherwise the arrival followed by the success or the failure of the retried call at
  the time the call ended. (A \<open>null\<close> answer runs STEP 3 and then the \<open>catch\<close>
  block at the same time, which leaves the state the \<open>catch\<close> block alone would.)
\<close>

lemma prune_prune_append: "prune now (prune now ts @ [t]) = prune now (ts @ [t])"
  by (induction ts) auto

lemma failure_after_success:
  "failure_branch now (success_branch now s) = failure_branch now s"
  by (simp add: failure_branch_def success_branch_def Let_def setTimeout_def prune_prune_append)

lemma success_branch_inflight:
  "(success_branch now (s\<lparr>inflight := n\<rparr>))\<lparr>inflight := inflight s\<rparr> = success_branch now s"
  by (simp add: success_branch_def)

lemma failure_branch_inflight:
  "(failure_branch now (s\<lparr>inflight := n\<rparr>))\<lparr>inflight := inflight s\<rparr> = failure_branch now s"
  by (simp add: failure_branch_def Let_def setTimeout_def)

lemma addEvent_as_events:
  "\<exists>evs. run evs s = Some (fst (snd (addEvent srv request_body s w)))
     \<and> (evs = [Arrive] \<and> circuitOpen s
        \<or> (\<exists>t. evs = [Arrive, Succeed t] \<or> evs = [Arrive, Fail t]) \<and> \<not> circuitOpen s)"
proof (cases "circuitOpen s")
  case True
  then have "run [Arrive] s = Some (fst (snd (addEvent srv request_body s w)))"
    by (simp add: addEvent_def)
  with True show ?thesis by blast
next
  case False
  obtain r log w' where r: "retryWithBackoff (addEvent_attempt srv request_body)
      MAX_RETRIES INITIAL_RETRY_DELAY w = (r, log, w')"
    by (cases "retryWithBackoff (addEvent_attempt srv request_body)
      MAX_RETRIES INITIAL_RETRY_DELAY w") auto
  have s: "run [Arrive, Succeed (clock w')] s = Some (success_branch (clock w') s)"
    using False by (simp add: success_branch_inflight)
  have f: "run [Arrive, Fail (clock w')] s = Some (failure_branch (clock w') s)"
    using False by (simp add: failure_branch_inflight)
  show ?thesis
  proof (cases r)
    case (Inl err)
    with False r have "fst (snd (addEvent srv request_body s w)) = failure_branch (clock w') s"
      by (simp add: addEvent_def)
    with f False show ?thesis by metis
  next
    case (Inr data)
    show ?thesis
    proof (cases "data = JNull")
      case True
      with Inr False r have "fst (snd (addEvent srv request_body s w)) = failure_branch (clock w') s"
        by (simp add: addEvent_def success_path_def Let_def failure_after_success)
      with f False show ?thesis by metis
    next
      case False2: False
      with Inr False r have "fst (snd (addEvent srv request_body s w)) = success_branch (clock w') s"
        by (simp add: addEvent_def success_path_def Let_def)
      with s False show ?thesis by metis
    qed
  qed
qed

end
